theory Spec2Isabelle
  imports Complex_Main "HOL-Library.Log_Nat"
begin

section \<open>Strings\<close>

text \<open>
  Python strings are modelled as \<open>string\<close>, holding the UTF-8 bytes of the text.  The three
  characters outside ASCII that the verdict messages use are written as their bytes.
\<close>

definition brain :: string where
  "brain = [CHR 0xF0, CHR 0x9F, CHR 0xA7, CHR 0xA0]"

definition droplet :: string where
  "droplet = [CHR 0xF0, CHR 0x9F, CHR 0x92, CHR 0xA7]"

definition rightarrow :: string where
  "rightarrow = [CHR 0xE2, CHR 0x86, CHR 0x92]"

section \<open>pcat.py: MeningitisWorkflow\<close>

record MeningitisWorkflow =
  coma :: bool
  stiff_neck :: bool
  bulging_fontanelle :: bool
  lp_clear :: bool
  csf_wbc_raised :: bool
  gram_positive :: bool
  test_done :: bool

text \<open>
  The constructor: every keyword argument is optional, \<open>None\<close> standing for an argument
  that the caller left out, which then takes the default of the signature.
\<close>

definition MeningitisWorkflow_init ::
  "bool option \<Rightarrow> bool option \<Rightarrow> bool option \<Rightarrow> bool option \<Rightarrow> bool option \<Rightarrow> bool option
    \<Rightarrow> bool option \<Rightarrow> MeningitisWorkflow" where
  "MeningitisWorkflow_init a_coma a_stiff_neck a_bulging_fontanelle a_lp_clear a_csf_wbc_raised
      a_gram_positive a_test_done =
    \<lparr> coma = (case a_coma of None \<Rightarrow> False | Some b \<Rightarrow> b),
      stiff_neck = (case a_stiff_neck of None \<Rightarrow> False | Some b \<Rightarrow> b),
      bulging_fontanelle = (case a_bulging_fontanelle of None \<Rightarrow> False | Some b \<Rightarrow> b),
      lp_clear = (case a_lp_clear of None \<Rightarrow> True | Some b \<Rightarrow> b),
      csf_wbc_raised = (case a_csf_wbc_raised of None \<Rightarrow> False | Some b \<Rightarrow> b),
      gram_positive = (case a_gram_positive of None \<Rightarrow> False | Some b \<Rightarrow> b),
      test_done = (case a_test_done of None \<Rightarrow> True | Some b \<Rightarrow> b) \<rparr>"

definition definite_meningitis :: string where
  "definite_meningitis =
    brain @ '' Definite Meningitis: Treat with Ceftriaxone. Steroids NOT indicated.''"

definition probable_meningitis :: string where
  "probable_meningitis =
    brain @ '' Probable Meningitis: Treat with Ceftriaxone. Steroids NOT indicated. Review CSF results.''"

definition possible_meningitis :: string where
  "possible_meningitis =
    brain @ '' Possible Meningitis: Treat with Ceftriaxone. Seek senior review.''"

definition no_meningitis_signs :: string where
  "no_meningitis_signs = ''No clear meningitis signs based on provided data.''"

definition meningitis_classify :: "MeningitisWorkflow \<Rightarrow> string" where
  "meningitis_classify self =
    (if coma self \<or> stiff_neck self \<or> bulging_fontanelle self \<or> \<not> lp_clear self
       then definite_meningitis
     else if csf_wbc_raised self \<or> gram_positive self
       then probable_meningitis
     else if test_done self
       then possible_meningitis
     else no_meningitis_signs)"

section \<open>pcat.py: DiarrhoeaWorkflow\<close>

text \<open>
  The symptoms are a dictionary from symptom names to flags, read with
  \<open>s.get(key, False)\<close>.
\<close>

record DiarrhoeaWorkflow =
  age :: int
  symptoms :: "string \<rightharpoonup> bool"

definition dict_get :: "('k \<rightharpoonup> 'v) \<Rightarrow> 'k \<Rightarrow> 'v \<Rightarrow> 'v" where
  "dict_get d k dflt = (case d k of None \<Rightarrow> dflt | Some v \<Rightarrow> v)"

definition py_all :: "bool list \<Rightarrow> bool" where
  "py_all bs = list_all (\<lambda>b. b) bs"

definition py_any :: "bool list \<Rightarrow> bool" where
  "py_any bs = list_ex (\<lambda>b. b) bs"

text \<open>\<open>sum\<close> over a list of flags counts \<open>True\<close> as 1 and \<open>False\<close> as 0.\<close>

definition py_sum :: "bool list \<Rightarrow> int" where
  "py_sum bs = sum_list (map (\<lambda>b. if b then 1 else 0) bs)"

definition shock_msg :: string where
  "shock_msg = droplet @ '' Shock: IV Ringer's Lactate 20ml/kg over 15 min '' @ rightarrow
     @ '' Plan C Step 1''"

definition severe_dehydration_msg :: "string \<Rightarrow> string" where
  "severe_dehydration_msg duration =
     droplet @ '' Severe Dehydration: Plan C Step 2 '' @ rightarrow
       @ '' 70ml/kg IV Ringer's over '' @ duration"

definition some_dehydration_msg :: string where
  "some_dehydration_msg = droplet @ '' Some Dehydration: Plan B '' @ rightarrow
     @ '' ORS 75ml/kg over 4 hours''"

definition no_dehydration_msg :: string where
  "no_dehydration_msg = droplet @ '' No Dehydration: Plan A '' @ rightarrow
     @ '' ORS 10ml/kg after each stool, continue feeding''"

definition diarrhoea_classify :: "DiarrhoeaWorkflow \<Rightarrow> string" where
  "diarrhoea_classify self =
    (let s = symptoms self in
     if py_all [dict_get s ''weak_or_absent_pulse'' False,
                dict_get s ''cold_hands_temp_gradient'' False,
                dict_get s ''capillary_refill_gt_3s'' False,
                dict_get s ''slow_skin_pinch'' False]
       then shock_msg
     else if py_any [dict_get s ''sunken_eyes'' False,
                     dict_get s ''unable_to_drink'' False,
                     dict_get s ''skin_pinch_gt_2s'' False]
       then severe_dehydration_msg (if age self \<ge> 12 then ''2.5hrs'' else ''4hrs'')
     else if py_sum [dict_get s ''sunken_eyes'' False,
                     dict_get s ''restless_irritable'' False,
                     dict_get s ''skin_pinch_1_2s'' False] \<ge> 2
       then some_dehydration_msg
     else no_dehydration_msg)"

section \<open>moh\_risk\_scraper.py: AgeConstraintManager\<close>

record AgeConstraintManager =
  min_age_months :: int
  max_age_months :: int

text \<open>
  \<open>set_age_range\<close> mutates the object and returns a flag: the model returns the flag with
  the object after the call.
\<close>

definition set_age_range :: "AgeConstraintManager \<Rightarrow> int \<Rightarrow> int \<Rightarrow> bool \<times> AgeConstraintManager" where
  "set_age_range self min_months max_months =
    (if min_months < 0 \<or> max_months < min_months \<or> max_months > 120
       then (False, self)
     else (True, self\<lparr>min_age_months := min_months, max_age_months := max_months\<rparr>))"

definition get_age_range :: "AgeConstraintManager \<Rightarrow> int \<times> int" where
  "get_age_range self = (min_age_months self, max_age_months self)"

definition is_age_in_range :: "AgeConstraintManager \<Rightarrow> int \<Rightarrow> bool" where
  "is_age_in_range self age_months =
     (min_age_months self \<le> age_months \<and> age_months \<le> max_age_months self)"

section \<open>Python numbers\<close>

text \<open>
  Python's \<open>int\<close> is unbounded and is modelled as \<open>int\<close>.  A \<open>float\<close> is an IEEE 754
  binary64 number.  A finite one is modelled exactly, as a pair \<open>(m, e)\<close> of integers that
  stands for \<open>m * 2 ^ e\<close>; the infinities are values of their own.  Every operation that the
  scraper performs on floats rounds the exact result to the nearest representable number,
  ties to the even mantissa, as the hardware and CPython's integer division do.
\<close>

datatype py_error = ZeroDivisionError | OverflowError

type_synonym double = "int \<times> int"

datatype pyfloat = Finite double | PosInf | NegInf

text \<open>The rational number that a finite float stands for.\<close>

definition double_val :: "double \<Rightarrow> rat" where
  "double_val x = of_int (fst x) * 2 powi (snd x)"

text \<open>\<open>int.bit_length()\<close>: the number of binary digits of a positive integer.\<close>

function bit_length :: "int \<Rightarrow> int" where
  "bit_length n = (if n \<le> 0 then 0 else 1 + bit_length (n div 2))"
  by pat_completeness auto
termination
  by (relation "measure nat") auto

declare bit_length.simps [simp del]

text \<open>
  For positive \<open>n\<close> and \<open>d\<close>, the exponent \<open>k\<close> with \<open>2 ^ k \<le> n / d < 2 ^ (k + 1)\<close>.
\<close>

definition floor_log2_ratio :: "int \<Rightarrow> int \<Rightarrow> int" where
  "floor_log2_ratio n d =
    (let k = bit_length n - bit_length d
     in if (if k \<ge> 0 then d * 2 ^ nat k \<le> n else d \<le> n * 2 ^ nat (- k)) then k else k - 1)"

text \<open>The integer nearest to \<open>n / d\<close> for positive \<open>d\<close>, a tie going to the even one.\<close>

definition round_half_even_div :: "int \<Rightarrow> int \<Rightarrow> int" where
  "round_half_even_div n d =
    (let q = n div d; r = n mod d
     in if 2 * r < d then q else if 2 * r > d then q + 1 else if even q then q else q + 1)"

text \<open>
  The binary64 number nearest to \<open>n / d\<close>, for \<open>n \<ge> 0\<close> and \<open>d > 0\<close>, with no bound on the
  exponent from above: a mantissa of 53 bits, and the fixed quantum \<open>2 ^ - 1074\<close> in the
  subnormal range.
\<close>

definition round_ratio :: "int \<Rightarrow> int \<Rightarrow> double" where
  "round_ratio n d =
    (if n = 0 then (0, 0)
     else let e = max (floor_log2_ratio n d - 52) (- 1074)
          in (if e \<ge> 0 then round_half_even_div n (d * 2 ^ nat e)
              else round_half_even_div (n * 2 ^ nat (- e)) d, e))"

text \<open>
  A rounded result \<open>m * 2 ^ e\<close> is out of the range of binary64 when its magnitude reaches
  \<open>2 ^ 1024\<close>, that is when \<open>m\<close> written in binary and shifted by \<open>e\<close> has more than 1024
  digits.
\<close>

definition double_overflows :: "double \<Rightarrow> bool" where
  "double_overflows x = (bit_length \<bar>fst x\<bar> + snd x > 1024)"

text \<open>
  \<open>a / b\<close> on two \<open>int\<close>s: the correctly rounded quotient; \<open>ZeroDivisionError\<close> for a zero
  divisor and \<open>OverflowError\<close> when the quotient is too large for a float.
\<close>

definition int_truediv :: "int \<Rightarrow> int \<Rightarrow> py_error + double" where
  "int_truediv a b =
    (if b = 0 then Inl ZeroDivisionError
     else case round_ratio \<bar>a\<bar> \<bar>b\<bar> of
            (m, e) \<Rightarrow>
              if double_overflows (m, e) then Inl OverflowError
              else Inr (sgn a * sgn b * m, e))"

text \<open>\<open>float(k)\<close>: the nearest float, \<open>OverflowError\<close> when \<open>k\<close> is too large.\<close>

definition float_of_int :: "int \<Rightarrow> py_error + double" where
  "float_of_int k =
    (case round_ratio \<bar>k\<bar> 1 of
       (m, e) \<Rightarrow>
         if double_overflows (m, e) then Inl OverflowError else Inr (sgn k * m, e))"

text \<open>
  The product of two finite floats: the exact product \<open>m1 * m2 * 2 ^ (e1 + e2)\<close> rounded; a
  product out of range is an infinity, not an exception.
\<close>

fun float_mul :: "double \<Rightarrow> double \<Rightarrow> pyfloat" where
  "float_mul (m1, e1) (m2, e2) =
    (let m = m1 * m2; e = e1 + e2
     in case (if e \<ge> 0 then round_ratio (\<bar>m\<bar> * 2 ^ nat e) 1
              else round_ratio \<bar>m\<bar> (2 ^ nat (- e))) of
          (mr, er) \<Rightarrow>
            if double_overflows (mr, er) then (if m < 0 then NegInf else PosInf)
            else Finite (sgn m * mr, er))"

declare float_mul.simps [simp del]

text \<open>\<open>x * k\<close> for a finite float \<open>x\<close> and an \<open>int\<close> \<open>k\<close>: \<open>k\<close> is converted first.\<close>

definition float_mul_int :: "double \<Rightarrow> int \<Rightarrow> py_error + pyfloat" where
  "float_mul_int x k =
    (case float_of_int k of Inl err \<Rightarrow> Inl err | Inr y \<Rightarrow> Inr (float_mul x y))"

text \<open>\<open>x >= t\<close> for a float \<open>x\<close> and an \<open>int\<close> \<open>t\<close>: Python compares the exact values.\<close>

fun float_ge_int :: "pyfloat \<Rightarrow> int \<Rightarrow> bool" where
  "float_ge_int (Finite x) t = (double_val x \<ge> of_int t)"
| "float_ge_int PosInf t = True"
| "float_ge_int NegInf t = False"

section \<open>moh\_risk\_scraper.py: EnhancedMOHScraper\<close>

text \<open>
  \<open>str.lower()\<close>: the letters \<open>A\<close> to \<open>Z\<close> are folded, every other byte is kept.  Disease
  names are taken to be ASCII text, as the keys of the tables are; Python folds letters
  outside ASCII too.
\<close>

definition lower_char :: "char \<Rightarrow> char" where
  "lower_char c =
    (case map_of (zip ''ABCDEFGHIJKLMNOPQRSTUVWXYZ'' ''abcdefghijklmnopqrstuvwxyz'') c of
       None \<Rightarrow> c
     | Some l \<Rightarrow> l)"

definition lower :: "string \<Rightarrow> string" where
  "lower s = map lower_char s"

record tier_threshold =
  cases_per_100k :: int
  deaths :: int

record disease_thresholds =
  high :: tier_threshold
  medium :: tier_threshold
  low :: tier_threshold

text \<open>
  The attributes of the scraper that the risk analysis reads (the URLs and the HTTP headers
  are left out).  Its age bounds carry the prefix \<open>scraper\<close> to keep them apart from the
  fields of \<open>AgeConstraintManager\<close>.
\<close>

record EnhancedMOHScraper =
  scraper_min_age_months :: int
  scraper_max_age_months :: int
  risk_thresholds :: "string \<rightharpoonup> disease_thresholds"

definition EnhancedMOHScraper_init :: EnhancedMOHScraper where
  "EnhancedMOHScraper_init =
    \<lparr> scraper_min_age_months = 1,
      scraper_max_age_months = 60,
      risk_thresholds =
        [''meningitis'' \<mapsto>
           \<lparr> high = \<lparr>cases_per_100k = 10, deaths = 2\<rparr>,
             medium = \<lparr>cases_per_100k = 5, deaths = 1\<rparr>,
             low = \<lparr>cases_per_100k = 1, deaths = 0\<rparr> \<rparr>,
         ''diarrhoea'' \<mapsto>
           \<lparr> high = \<lparr>cases_per_100k = 50, deaths = 5\<rparr>,
             medium = \<lparr>cases_per_100k = 20, deaths = 2\<rparr>,
             low = \<lparr>cases_per_100k = 5, deaths = 0\<rparr> \<rparr>] \<rparr>"

text \<open>
  The local variable \<open>cases_per_100k\<close> of \<open>_calculate_risk_level\<close>:
  \<open>(cases / 100000) * 100000 if cases > 0 else 0\<close>.  The \<open>int\<close> zero of the second branch
  is written as the float zero, which compares the same with every threshold.
\<close>

definition case_rate :: "int \<Rightarrow> py_error + pyfloat" where
  "case_rate cases =
    (if cases > 0
       then (case int_truediv cases 100000 of
               Inl err \<Rightarrow> Inl err
             | Inr q \<Rightarrow> float_mul_int q 100000)
     else Inr (Finite (0, 0)))"

definition calculate_risk_level ::
  "EnhancedMOHScraper \<Rightarrow> string \<Rightarrow> int \<Rightarrow> int \<Rightarrow> py_error + string" where
  "calculate_risk_level self disease cases death_count =
    (case risk_thresholds self disease of
       None \<Rightarrow> Inr ''Medium''
     | Some thresholds \<Rightarrow>
        (case case_rate cases of
           Inl err \<Rightarrow> Inl err
         | Inr rate \<Rightarrow>
            if float_ge_int rate (cases_per_100k (high thresholds))
                 \<or> death_count \<ge> deaths (high thresholds)
              then Inr ''High''
            else if float_ge_int rate (cases_per_100k (medium thresholds))
                 \<or> death_count \<ge> deaths (medium thresholds)
              then Inr ''Medium''
            else Inr ''Low''))"

definition affects_target_age_group :: "EnhancedMOHScraper \<Rightarrow> string \<Rightarrow> bool" where
  "affects_target_age_group self disease =
    (let target_diseases = [''meningitis'', ''diarrhoea'']
     in lower disease \<in> set target_diseases)"



text \<open>
  The variant of \<open>_calculate_risk_level\<close> that the specification proposes: it compares the
  raw case count with the case thresholds, and computes no case rate.
\<close>

definition calculate_risk_level_raw ::
  "EnhancedMOHScraper \<Rightarrow> string \<Rightarrow> int \<Rightarrow> int \<Rightarrow> string" where
  "calculate_risk_level_raw self disease cases death_count =
    (case risk_thresholds self disease of
       None \<Rightarrow> ''Medium''
     | Some thresholds \<Rightarrow>
        if cases \<ge> cases_per_100k (high thresholds)
             \<or> death_count \<ge> deaths (high thresholds)
          then ''High''
        else if cases \<ge> cases_per_100k (medium thresholds)
             \<or> death_count \<ge> deaths (medium thresholds)
          then ''Medium''
        else ''Low'')"

section \<open>Verdicts of the meningitis workflow\<close>

lemma meningitis_verdicts_distinct:
  "definite_meningitis \<noteq> probable_meningitis" "definite_meningitis \<noteq> possible_meningitis"
  "definite_meningitis \<noteq> no_meningitis_signs" "probable_meningitis \<noteq> possible_meningitis"
  "probable_meningitis \<noteq> no_meningitis_signs" "possible_meningitis \<noteq> no_meningitis_signs"
  by (simp_all add: definite_meningitis_def probable_meningitis_def possible_meningitis_def
      no_meningitis_signs_def brain_def)

text \<open>
  Claim C2.  \<open>MeningitisWorkflow.classify\<close> is a first-match table of four tiers.  The four
  messages are pairwise different, so each verdict is returned exactly under its own
  condition: Definite iff coma, stiff neck or bulging fontanelle holds or \<open>lp_clear\<close> is false;
  Probable iff that fails and \<open>csf_wbc_raised\<close> or \<open>gram_positive\<close> holds; Possible iff both
  fail and \<open>test_done\<close> holds; the fallback message iff all three fail.  With every flag
  false, \<open>lp_clear\<close> included, the verdict is Definite.
\<close>

theorem meningitis_decision_table:
  "(meningitis_classify w = definite_meningitis \<longleftrightarrow>
      (coma w \<or> stiff_neck w \<or> bulging_fontanelle w \<or> \<not> lp_clear w))
   \<and> (meningitis_classify w = probable_meningitis \<longleftrightarrow>
      \<not> (coma w \<or> stiff_neck w \<or> bulging_fontanelle w \<or> \<not> lp_clear w)
      \<and> (csf_wbc_raised w \<or> gram_positive w))
   \<and> (meningitis_classify w = possible_meningitis \<longleftrightarrow>
      \<not> (coma w \<or> stiff_neck w \<or> bulging_fontanelle w \<or> \<not> lp_clear w)
      \<and> \<not> (csf_wbc_raised w \<or> gram_positive w) \<and> test_done w)
   \<and> (meningitis_classify w = no_meningitis_signs \<longleftrightarrow>
      \<not> (coma w \<or> stiff_neck w \<or> bulging_fontanelle w \<or> \<not> lp_clear w)
      \<and> \<not> (csf_wbc_raised w \<or> gram_positive w) \<and> \<not> test_done w)
   \<and> meningitis_classify \<lparr>coma = False, stiff_neck = False, bulging_fontanelle = False,
         lp_clear = False, csf_wbc_raised = False, gram_positive = False, test_done = False\<rparr>
       = definite_meningitis"
  using meningitis_verdicts_distinct by (auto simp: meningitis_classify_def)

theorem meningitis_decision_table_witness:
  "meningitis_classify \<lparr>coma = False, stiff_neck = False, bulging_fontanelle = False,
         lp_clear = True, csf_wbc_raised = False, gram_positive = True, test_done = True\<rparr>
       = probable_meningitis"
  using meningitis_decision_table [of "\<lparr>coma = False, stiff_neck = False,
         bulging_fontanelle = False, lp_clear = True, csf_wbc_raised = False,
         gram_positive = True, test_done = True\<rparr>"]
  by simp

text \<open>
  Claim C10.  A workflow built with no argument at all has \<open>lp_clear\<close> and \<open>test_done\<close> true
  by default, and its verdict is Possible Meningitis, not the fallback message.
\<close>

theorem default_workflow_is_possible:
  "meningitis_classify (MeningitisWorkflow_init None None None None None None None)
      = possible_meningitis
   \<and> meningitis_classify (MeningitisWorkflow_init None None None None None None None)
      \<noteq> no_meningitis_signs
   \<and> lp_clear (MeningitisWorkflow_init None None None None None None None)
   \<and> test_done (MeningitisWorkflow_init None None None None None None None)"
  using meningitis_verdicts_distinct
  by (simp add: meningitis_classify_def MeningitisWorkflow_init_def)

theorem default_workflow_is_possible_witness:
  "meningitis_classify (MeningitisWorkflow_init None None None None None None None)
      = possible_meningitis"
  using default_workflow_is_possible by simp

section \<open>Verdicts of the diarrhoea workflow\<close>

lemma diarrhoea_verdicts_distinct:
  "shock_msg \<noteq> severe_dehydration_msg d" "shock_msg \<noteq> some_dehydration_msg"
  "shock_msg \<noteq> no_dehydration_msg" "severe_dehydration_msg d \<noteq> some_dehydration_msg"
  "severe_dehydration_msg d \<noteq> no_dehydration_msg" "some_dehydration_msg \<noteq> no_dehydration_msg"
  "severe_dehydration_msg ''2.5hrs'' \<noteq> severe_dehydration_msg ''4hrs''"
  by (simp_all add: shock_msg_def severe_dehydration_msg_def some_dehydration_msg_def
      no_dehydration_msg_def droplet_def)

lemma py_all4: "py_all [a, b, c, d] \<longleftrightarrow> a \<and> b \<and> c \<and> d"
  by (simp add: py_all_def)

lemma py_any3: "py_any [a, b, c] \<longleftrightarrow> a \<or> b \<or> c"
  by (simp add: py_any_def)

lemma py_sum3_ge2: "py_sum [a, b, c] \<ge> 2 \<longleftrightarrow> (a \<and> b) \<or> (a \<and> c) \<or> (b \<and> c)"
  by (simp add: py_sum_def)

text \<open>
  Claim C3.  \<open>DiarrhoeaWorkflow.classify\<close> is a first-match table of four tiers, for every age
  and every symptom dictionary (a missing key reads as false): Shock iff the four shock
  flags all hold; otherwise Severe Dehydration iff one of the three severe flags holds, with
  the duration \<open>2.5hrs\<close> from 12 months on and \<open>4hrs\<close> below; otherwise Some Dehydration iff at
  least two of \<open>sunken_eyes\<close>, \<open>restless_irritable\<close>, \<open>skin_pinch_1_2s\<close> hold; otherwise No
  Dehydration.
\<close>

theorem diarrhoea_decision_table:
  fixes w :: DiarrhoeaWorkflow
  defines "g \<equiv> (\<lambda>k. dict_get (symptoms w) k False)"
  defines "shock \<equiv> g ''weak_or_absent_pulse'' \<and> g ''cold_hands_temp_gradient''
          \<and> g ''capillary_refill_gt_3s'' \<and> g ''slow_skin_pinch''"
  defines "severe \<equiv> g ''sunken_eyes'' \<or> g ''unable_to_drink'' \<or> g ''skin_pinch_gt_2s''"
  defines "moderate2 \<equiv> (g ''sunken_eyes'' \<and> g ''restless_irritable'')
          \<or> (g ''sunken_eyes'' \<and> g ''skin_pinch_1_2s'')
          \<or> (g ''restless_irritable'' \<and> g ''skin_pinch_1_2s'')"
  shows "(diarrhoea_classify w = shock_msg \<longleftrightarrow> shock)
   \<and> (diarrhoea_classify w = severe_dehydration_msg ''2.5hrs'' \<longleftrightarrow>
        \<not> shock \<and> severe \<and> age w \<ge> 12)
   \<and> (diarrhoea_classify w = severe_dehydration_msg ''4hrs'' \<longleftrightarrow>
        \<not> shock \<and> severe \<and> age w < 12)
   \<and> (diarrhoea_classify w = some_dehydration_msg \<longleftrightarrow> \<not> shock \<and> \<not> severe \<and> moderate2)
   \<and> (diarrhoea_classify w = no_dehydration_msg \<longleftrightarrow> \<not> shock \<and> \<not> severe \<and> \<not> moderate2)"
proof -
  have eq: "diarrhoea_classify w =
    (if shock then shock_msg
     else if severe then severe_dehydration_msg (if age w \<ge> 12 then ''2.5hrs'' else ''4hrs'')
     else if moderate2 then some_dehydration_msg
     else no_dehydration_msg)"
    unfolding diarrhoea_classify_def Let_def py_all4 py_any3 py_sum3_ge2
      shock_def severe_def moderate2_def g_def ..
  note d = diarrhoea_verdicts_distinct diarrhoea_verdicts_distinct [symmetric]
  show ?thesis
    unfolding eq
    by (cases shock; cases severe; cases moderate2; cases "age w \<ge> 12"; simp add: d)
qed

theorem diarrhoea_decision_table_witness:
  "diarrhoea_classify \<lparr>age = 11, symptoms = [''sunken_eyes'' \<mapsto> True]\<rparr>
     = severe_dehydration_msg ''4hrs''"
  using diarrhoea_decision_table [of "\<lparr>age = 11, symptoms = [''sunken_eyes'' \<mapsto> True]\<rparr>"]
  by (simp add: dict_get_def)

text \<open>
  Claim C9.  \<open>sunken_eyes\<close> is a severe sign, and the severe tier is tried first: whenever the
  verdict is Some Dehydration, \<open>sunken_eyes\<close> is false and both \<open>restless_irritable\<close> and
  \<open>skin_pinch_1_2s\<close> are true.
\<close>

theorem sunken_eyes_never_some_dehydration:
  "diarrhoea_classify w = some_dehydration_msg \<Longrightarrow>
     \<not> dict_get (symptoms w) ''sunken_eyes'' False
     \<and> dict_get (symptoms w) ''restless_irritable'' False
     \<and> dict_get (symptoms w) ''skin_pinch_1_2s'' False"
  using diarrhoea_verdicts_distinct diarrhoea_verdicts_distinct [symmetric]
  by (simp add: diarrhoea_classify_def Let_def py_all4 py_any3 py_sum3_ge2 split: if_splits)

theorem sunken_eyes_never_some_dehydration_witness:
  "diarrhoea_classify
      \<lparr>age = 30, symptoms = [''restless_irritable'' \<mapsto> True, ''skin_pinch_1_2s'' \<mapsto> True]\<rparr>
      = some_dehydration_msg
   \<and> \<not> dict_get [''restless_irritable'' \<mapsto> True, ''skin_pinch_1_2s'' \<mapsto> True]
        ''sunken_eyes'' False
   \<and> dict_get [''restless_irritable'' \<mapsto> True, ''skin_pinch_1_2s'' \<mapsto> True]
        ''restless_irritable'' False
   \<and> dict_get [''restless_irritable'' \<mapsto> True, ''skin_pinch_1_2s'' \<mapsto> True]
        ''skin_pinch_1_2s'' False"
proof -
  have h: "diarrhoea_classify
      \<lparr>age = 30, symptoms = [''restless_irritable'' \<mapsto> True, ''skin_pinch_1_2s'' \<mapsto> True]\<rparr>
      = some_dehydration_msg"
    by (simp add: diarrhoea_classify_def Let_def py_all4 py_any3 py_sum3_ge2 dict_get_def)
  from sunken_eyes_never_some_dehydration [OF h] h show ?thesis by simp
qed

section \<open>The age range\<close>

text \<open>
  Claim C5.  \<open>set_age_range\<close> validates before it writes: for \<open>0 \<le> min \<le> max \<le> 120\<close> it
  returns \<open>True\<close> and \<open>get_age_range\<close> then gives \<open>(min, max)\<close>; for every other pair of
  integers it returns \<open>False\<close>, raises nothing and leaves the object as it was, so
  \<open>get_age_range\<close> gives the pair of before.
\<close>

theorem set_age_range_validated_atomic:
  "(0 \<le> mn \<and> mn \<le> mx \<and> mx \<le> 120 \<longrightarrow>
      fst (set_age_range m mn mx) = True
      \<and> get_age_range (snd (set_age_range m mn mx)) = (mn, mx))
   \<and> (\<not> (0 \<le> mn \<and> mn \<le> mx \<and> mx \<le> 120) \<longrightarrow>
      fst (set_age_range m mn mx) = False
      \<and> snd (set_age_range m mn mx) = m
      \<and> get_age_range (snd (set_age_range m mn mx)) = get_age_range m)"
  by (auto simp: set_age_range_def get_age_range_def)

theorem set_age_range_validated_atomic_witness:
  "fst (set_age_range \<lparr>min_age_months = 1, max_age_months = 60\<rparr> 6 24) = True
   \<and> get_age_range (snd (set_age_range \<lparr>min_age_months = 1, max_age_months = 60\<rparr> 6 24)) = (6, 24)
   \<and> fst (set_age_range \<lparr>min_age_months = 6, max_age_months = 24\<rparr> 30 10) = False
   \<and> get_age_range (snd (set_age_range \<lparr>min_age_months = 6, max_age_months = 24\<rparr> 30 10)) = (6, 24)"
  using set_age_range_validated_atomic [of 6 24 "\<lparr>min_age_months = 1, max_age_months = 60\<rparr>"]
    set_age_range_validated_atomic [of 30 10 "\<lparr>min_age_months = 6, max_age_months = 24\<rparr>"]
  by (simp add: get_age_range_def)

text \<open>
  Claim C8.  \<open>is_age_in_range\<close> includes both bounds: with the stored range \<open>(mn, mx)\<close> an age
  is in range iff \<open>mn \<le> age \<le> mx\<close>.  After \<open>set_age_range(6, 24)\<close> on any object the call has
  succeeded, the ages 6, 18 and 24 are in range and 30 is not.
\<close>

theorem is_age_in_range_inclusive:
  "(get_age_range m = (mn, mx) \<longrightarrow> (is_age_in_range m a \<longleftrightarrow> mn \<le> a \<and> a \<le> mx))
   \<and> fst (set_age_range m 6 24) = True
   \<and> is_age_in_range (snd (set_age_range m 6 24)) 6
   \<and> is_age_in_range (snd (set_age_range m 6 24)) 18
   \<and> is_age_in_range (snd (set_age_range m 6 24)) 24
   \<and> \<not> is_age_in_range (snd (set_age_range m 6 24)) 30"
  by (auto simp: set_age_range_def get_age_range_def is_age_in_range_def)

theorem is_age_in_range_inclusive_witness:
  "get_age_range \<lparr>min_age_months = 1, max_age_months = 60\<rparr> = (1, 60)
   \<and> is_age_in_range \<lparr>min_age_months = 1, max_age_months = 60\<rparr> 1
   \<and> is_age_in_range \<lparr>min_age_months = 1, max_age_months = 60\<rparr> 60
   \<and> \<not> is_age_in_range \<lparr>min_age_months = 1, max_age_months = 60\<rparr> 61
   \<and> \<not> is_age_in_range \<lparr>min_age_months = 1, max_age_months = 60\<rparr> 0"
  using is_age_in_range_inclusive [of "\<lparr>min_age_months = 1, max_age_months = 60\<rparr>" 1 60 1]
    is_age_in_range_inclusive [of "\<lparr>min_age_months = 1, max_age_months = 60\<rparr>" 1 60 60]
    is_age_in_range_inclusive [of "\<lparr>min_age_months = 1, max_age_months = 60\<rparr>" 1 60 61]
    is_age_in_range_inclusive [of "\<lparr>min_age_months = 1, max_age_months = 60\<rparr>" 1 60 0]
  by (simp add: get_age_range_def)

text \<open>
  Claim C7.  \<open>_affects_target_age_group\<close> reads no age bound: for every scraper object the
  result is true iff the lower-cased disease name is \<open>meningitis\<close> or \<open>diarrhoea\<close>, and two
  scraper objects, whatever their age bounds, give the same result.
\<close>

theorem affects_target_age_group_ignores_range:
  "(affects_target_age_group self d \<longleftrightarrow> lower d \<in> {''meningitis'', ''diarrhoea''})
   \<and> affects_target_age_group
        (self\<lparr>scraper_min_age_months := mn, scraper_max_age_months := mx\<rparr>) d
      = affects_target_age_group self d
   \<and> affects_target_age_group self' d = affects_target_age_group self d"
  by (simp add: affects_target_age_group_def)

theorem affects_target_age_group_ignores_range_witness:
  "affects_target_age_group EnhancedMOHScraper_init ''Meningitis''
   \<and> affects_target_age_group
       (EnhancedMOHScraper_init\<lparr>scraper_min_age_months := 100, scraper_max_age_months := 120\<rparr>)
       ''DIARRHOEA''
   \<and> \<not> affects_target_age_group EnhancedMOHScraper_init ''cholera''"
  using affects_target_age_group_ignores_range [where self = EnhancedMOHScraper_init
      and d = "''Meningitis''"]
    affects_target_age_group_ignores_range [where self = EnhancedMOHScraper_init
      and d = "''DIARRHOEA''" and mn = 100 and mx = 120]
    affects_target_age_group_ignores_range [where self = EnhancedMOHScraper_init
      and d = "''cholera''"]
  by (simp add: lower_def lower_char_def)

section \<open>Rounding to binary64\<close>

text \<open>
  \<open>bit_length\<close> is the bit length of the library, which gives its bounds.
\<close>

lemma bit_length_eq_bitlen: "bit_length n = bitlen n"
proof (induction n rule: bit_length.induct)
  case (1 n)
  show ?case
  proof (cases "n \<le> 0")
    case True
    then show ?thesis
      by (simp add: bit_length.simps [of n] bitlen_eq_zero_iff)
  next
    case False
    with 1 have "bit_length (n div 2) = bitlen (n div 2)"
      by simp
    with False show ?thesis
      by (simp add: bit_length.simps [of n] compute_bitlen [of n])
  qed
qed

lemma bit_length_bounds:
  assumes "0 < n"
  shows "2 ^ nat (bit_length n - 1) \<le> n" and "n < 2 ^ nat (bit_length n)"
    and "1 \<le> bit_length n"
proof -
  show "2 ^ nat (bit_length n - 1) \<le> n" "n < 2 ^ nat (bit_length n)"
    using bitlen_bounds [OF assms] by (simp_all add: bit_length_eq_bitlen)
  show "1 \<le> bit_length n"
    using assms bitlen_eq_zero_iff [of n] bitlen_nonneg [of n]
    by (simp add: bit_length_eq_bitlen)
qed

lemma bit_length_powi:
  assumes "0 < n"
  shows "(2::rat) powi (bit_length n - 1) \<le> of_int n" and "of_int n < (2::rat) powi (bit_length n)"
proof -
  note b = bit_length_bounds [OF assms]
  have "(of_int (2 ^ nat (bit_length n - 1)) :: rat) \<le> of_int n"
    using b(1) by (simp only: of_int_le_iff)
  then show "(2::rat) powi (bit_length n - 1) \<le> of_int n"
    using b(3) by (simp add: power_int_def)
  have "(of_int n :: rat) < of_int (2 ^ nat (bit_length n))"
    using b(2) by (simp only: of_int_less_iff)
  then show "of_int n < (2::rat) powi (bit_length n)"
    using b(3) by (simp add: power_int_def)
qed

lemma powi_le_ratio_iff:
  assumes "0 < d"
  shows "(if k \<ge> 0 then d * 2 ^ nat k \<le> n else d \<le> n * 2 ^ nat (- k))
     \<longleftrightarrow> (2::rat) powi k \<le> of_int n / of_int d"
proof (cases "k \<ge> 0")
  case True
  have "(2::rat) powi k \<le> of_int n / of_int d \<longleftrightarrow> (2::rat) ^ nat k * of_int d \<le> of_int n"
    using assms True by (simp add: power_int_def pos_le_divide_eq)
  also have "\<dots> \<longleftrightarrow> (of_int (d * 2 ^ nat k) :: rat) \<le> of_int n"
    by (simp add: mult.commute)
  also have "\<dots> \<longleftrightarrow> d * 2 ^ nat k \<le> n"
    by (simp only: of_int_le_iff)
  finally show ?thesis using True by simp
next
  case False
  have "(2::rat) powi k \<le> of_int n / of_int d \<longleftrightarrow> of_int d \<le> (of_int n :: rat) * 2 ^ nat (- k)"
    using assms False by (simp add: power_int_def field_simps)
  also have "\<dots> \<longleftrightarrow> (of_int d :: rat) \<le> of_int (n * 2 ^ nat (- k))"
    by simp
  also have "\<dots> \<longleftrightarrow> d \<le> n * 2 ^ nat (- k)"
    by (simp only: of_int_le_iff)
  finally show ?thesis using False by simp
qed

lemma floor_log2_ratio_bounds:
  assumes "0 < n" and "0 < d"
  shows "(2::rat) powi (floor_log2_ratio n d) \<le> of_int n / of_int d"
    and "of_int n / of_int d < (2::rat) powi (floor_log2_ratio n d + 1)"
proof -
  define k where "k = bit_length n - bit_length d"
  define x :: rat where "x = of_int n / of_int d"
  have dpos: "(0::rat) < of_int d" using assms by simp
  note bn = bit_length_powi [OF assms(1)] and bd = bit_length_powi [OF assms(2)]
  have up: "x < 2 powi (k + 1)"
  proof -
    have "of_int n < (2::rat) powi (bit_length n)" by (rule bn(2))
    also have "\<dots> = 2 powi (k + 1) * 2 powi (bit_length d - 1)"
      by (simp add: k_def flip: power_int_add)
    also have "\<dots> \<le> 2 powi (k + 1) * of_int d"
      using bd(1) by (intro mult_left_mono) simp_all
    finally show ?thesis using dpos by (simp add: x_def pos_divide_less_eq)
  qed
  have lo: "2 powi (k - 1) \<le> x"
  proof -
    have "(2::rat) powi (k - 1) * of_int d \<le> 2 powi (k - 1) * 2 powi (bit_length d)"
      using bd(2) by (intro mult_left_mono) simp_all
    also have "\<dots> = 2 powi (bit_length n - 1)"
      by (simp add: k_def flip: power_int_add)
    also have "\<dots> \<le> of_int n" by (rule bn(1))
    finally show ?thesis using dpos by (simp add: x_def pos_le_divide_eq)
  qed
  have fl: "floor_log2_ratio n d = (if 2 powi k \<le> x then k else k - 1)"
    unfolding floor_log2_ratio_def Let_def k_def [symmetric] x_def
    using powi_le_ratio_iff [OF assms(2), of k n] by simp
  show "(2::rat) powi (floor_log2_ratio n d) \<le> of_int n / of_int d"
    using lo by (simp add: fl x_def [symmetric])
  show "of_int n / of_int d < (2::rat) powi (floor_log2_ratio n d + 1)"
    using up by (auto simp add: fl x_def [symmetric] not_le)
qed

lemma round_half_even_div_error:
  assumes "0 < d"
  shows "\<bar>of_int (round_half_even_div n d) - (of_int n / of_int d :: rat)\<bar> \<le> 1 / 2"
proof -
  define q where "q = n div d"
  define r where "r = n mod d"
  define \<rho> :: rat where "\<rho> = of_int r / of_int d"
  have dpos: "(0::rat) < of_int d" using assms by simp
  have r: "0 \<le> r" "r < d" using assms by (simp_all add: r_def)
  have "n = q * d + r" by (simp add: q_def r_def)
  then have "(of_int n :: rat) = of_int q * of_int d + of_int r"
    by (metis of_int_add of_int_mult)
  then have x: "(of_int n / of_int d :: rat) = of_int q + \<rho>"
    using dpos by (simp add: \<rho>_def field_simps)
  have lt: "2 * r < d \<longleftrightarrow> \<rho> < 1 / 2"
  proof -
    have "\<rho> < 1 / 2 \<longleftrightarrow> (of_int (2 * r) :: rat) < of_int d"
      using dpos by (simp add: \<rho>_def field_simps)
    then show ?thesis by (simp only: of_int_less_iff)
  qed
  have gt: "d < 2 * r \<longleftrightarrow> 1 / 2 < \<rho>"
  proof -
    have "1 / 2 < \<rho> \<longleftrightarrow> (of_int d :: rat) < of_int (2 * r)"
      using dpos by (simp add: \<rho>_def field_simps)
    then show ?thesis by (simp only: of_int_less_iff)
  qed
  have \<rho>: "0 \<le> \<rho>" "\<rho> < 1"
    using r dpos by (simp_all add: \<rho>_def)
  show ?thesis
    unfolding round_half_even_div_def Let_def q_def [symmetric] r_def [symmetric] x
    using lt gt \<rho> by auto
qed

text \<open>
  The rounding error: in the normal range the rounded value is within the fraction
  \<open>2 ^ - 53\<close> of the exact one.
\<close>

lemma powi2_less_iff: "(2::rat) powi a < 2 powi b \<longleftrightarrow> a < b"
proof
  assume "(2::rat) powi a < 2 powi b"
  show "a < b"
  proof (rule ccontr)
    assume "\<not> a < b"
    then have "b \<le> a" by simp
    then have "(2::rat) powi b \<le> 2 powi a" by (intro power_int_increasing) simp_all
    with \<open>(2::rat) powi a < 2 powi b\<close> show False by simp
  qed
next
  assume "a < b"
  then show "(2::rat) powi a < 2 powi b" by (intro power_int_strict_increasing) simp_all
qed

lemma powi2_le_iff: "(2::rat) powi a \<le> 2 powi b \<longleftrightarrow> a \<le> b"
  using powi2_less_iff [of b a] by (auto simp: not_less [symmetric])

lemma round_ratio_cases:
  assumes "0 < n" and "0 < d"
  obtains m e where "round_ratio n d = (m, e)"
    and "e = max (floor_log2_ratio n d - 52) (- 1074)"
    and "\<bar>of_int m - (of_int n / of_int d) / (2::rat) powi e\<bar> \<le> 1 / 2"
proof -
  define e where "e = max (floor_log2_ratio n d - 52) (- 1074)"
  define m where "m = (if e \<ge> 0 then round_half_even_div n (d * 2 ^ nat e)
              else round_half_even_div (n * 2 ^ nat (- e)) d)"
  have rr: "round_ratio n d = (m, e)"
    using assms by (simp add: round_ratio_def Let_def e_def m_def)
  have "\<bar>of_int m - (of_int n / of_int d) / (2::rat) powi e\<bar> \<le> 1 / 2"
  proof (cases "e \<ge> 0")
    case True
    have "0 < d * 2 ^ nat e" using assms by simp
    from round_half_even_div_error [OF this, of n] True
    show ?thesis by (simp add: m_def power_int_def)
  next
    case False
    from round_half_even_div_error [OF assms(2), of "n * 2 ^ nat (- e)"] False
    show ?thesis by (simp add: m_def power_int_def field_simps)
  qed
  with rr e_def show ?thesis by (rule that)
qed

lemma round_ratio_error:
  assumes "0 < n" and "0 < d" and "(2::rat) powi (- 1022) \<le> of_int n / of_int d"
  shows "\<bar>double_val (round_ratio n d) - of_int n / of_int d\<bar> \<le> (of_int n / of_int d) / 2 ^ 53"
proof -
  define x :: rat where "x = of_int n / of_int d"
  define fl where "fl = floor_log2_ratio n d"
  note flb = floor_log2_ratio_bounds [OF assms(1,2), folded x_def fl_def]
  from round_ratio_cases [OF assms(1,2)] obtain m e where
    rr: "round_ratio n d = (m, e)" and e: "e = max (fl - 52) (- 1074)"
    and err: "\<bar>of_int m - x / (2::rat) powi e\<bar> \<le> 1 / 2"
    unfolding x_def fl_def by blast
  have "(2::rat) powi (- 1022) < 2 powi (fl + 1)"
    using assms(3) flb(2) unfolding x_def by (rule le_less_trans)
  then have "- 1022 < fl + 1"
    by (simp only: powi2_less_iff)
  then have e': "e = fl - 52" using e by simp
  have p: "(0::rat) < 2 powi e" by simp
  have "\<bar>of_int m * 2 powi e - x\<bar> = \<bar>of_int m - x / 2 powi e\<bar> * 2 powi e"
  proof -
    have "of_int m * 2 powi e - x = (of_int m - x / 2 powi e) * 2 powi e"
      using p by (simp add: field_simps)
    then show ?thesis using p by (simp add: abs_mult)
  qed
  also have "\<dots> \<le> (1 / 2) * 2 powi e"
    using err p by (intro mult_right_mono) simp_all
  also have "\<dots> = 2 powi fl / 2 ^ 53"
  proof -
    have "(2::rat) powi e = 2 powi fl * 2 powi (- 52)"
      unfolding e' using power_int_add [of "2::rat" fl "- 52"] by simp
    then show ?thesis by simp
  qed
  also have "\<dots> \<le> x / 2 ^ 53"
    using flb(1) by (simp add: divide_right_mono)
  finally show ?thesis
    by (simp add: rr double_val_def x_def)
qed

subsection \<open>Overflow\<close>

lemma double_overflows_ge:
  assumes "0 < m" and "double_overflows (m, e)"
  shows "(2::rat) ^ 1024 \<le> double_val (m, e)"
proof -
  from assms have b: "1024 \<le> (bit_length m - 1) + e"
    by (simp add: double_overflows_def)
  have "(2::rat) ^ 1024 = 2 powi 1024" by simp
  also have "\<dots> \<le> 2 powi ((bit_length m - 1) + e)"
    using b by (simp only: powi2_le_iff)
  also have "\<dots> = 2 powi (bit_length m - 1) * 2 powi e"
    by (simp add: power_int_add)
  also have "\<dots> \<le> of_int m * 2 powi e"
    using bit_length_powi(1) [OF assms(1)] by (intro mult_right_mono) simp_all
  finally show ?thesis by (simp add: double_val_def)
qed

lemma round_ratio_positive:
  assumes "0 < n" and "0 < d" and "(2::rat) powi (- 1022) \<le> of_int n / of_int d"
  shows "0 < fst (round_ratio n d)"
proof -
  define x :: rat where "x = of_int n / of_int d"
  have xpos: "0 < x" using assms by (simp add: x_def)
  from round_ratio_error [OF assms] have "x - x / 2 ^ 53 \<le> double_val (round_ratio n d)"
    unfolding x_def abs_diff_le_iff by blast
  with xpos have "0 < double_val (round_ratio n d)" by simp
  then have "0 < (of_int (fst (round_ratio n d)) :: rat) * 2 powi snd (round_ratio n d)"
    by (simp only: double_val_def)
  moreover have "(0::rat) < 2 powi snd (round_ratio n d)" by simp
  ultimately have "0 < (of_int (fst (round_ratio n d)) :: rat)"
    by (rule zero_less_mult_pos2)
  then show ?thesis by simp
qed

lemma round_ratio_in_range:
  assumes "0 < n" and "0 < d" and "(2::rat) powi (- 1022) \<le> of_int n / of_int d"
    and "of_int n / of_int d < (2::rat) ^ 1024 - 2 ^ 970"
  shows "\<not> double_overflows (round_ratio n d)"
proof -
  define x :: rat where "x = of_int n / of_int d"
  define fl where "fl = floor_log2_ratio n d"
  note flb = floor_log2_ratio_bounds [OF assms(1,2), folded x_def fl_def]
  from round_ratio_cases [OF assms(1,2)] obtain m e where
    rr: "round_ratio n d = (m, e)" and e: "e = max (fl - 52) (- 1074)"
    and err: "\<bar>of_int m - x / (2::rat) powi e\<bar> \<le> 1 / 2"
    unfolding x_def fl_def by blast
  have x: "x < 2 ^ 1024 - 2 ^ 970" using assms(4) by (simp add: x_def)
  have mpos: "0 < m" using round_ratio_positive [OF assms(1-3)] by (simp add: rr)
  have "(2::rat) powi fl < 2 powi 1024"
    using flb(1) x by simp
  then have fl: "fl < 1024" by (simp only: powi2_less_iff)
  have "(2::rat) powi (- 1022) < 2 powi (fl + 1)"
    using assms(3) flb(2) unfolding x_def by (rule le_less_trans)
  then have "- 1022 < fl + 1" by (simp only: powi2_less_iff)
  then have e': "e = fl - 52" using e by simp
  have val: "double_val (m, e) < 2 ^ 1024"
  proof (cases "fl = 1023")
    case True
    then have e971: "e = 971" using e' by simp
    have "of_int m \<le> x / 2 powi e + 1 / 2"
      using err unfolding abs_diff_le_iff by blast
    then have "of_int m \<le> x / 2 ^ 971 + 1 / 2" by (simp add: e971)
    also have "\<dots> < 2 ^ 53" using x by simp
    finally have "(of_int m :: rat) < of_int (2 ^ 53)" by simp
    then have "m < 2 ^ 53" by (simp only: of_int_less_iff)
    then have "m * 2 ^ 971 < 2 ^ 53 * 2 ^ 971" by simp
    then have "(of_int (m * 2 ^ 971) :: rat) < of_int (2 ^ 53 * 2 ^ 971)"
      by (simp only: of_int_less_iff)
    then show ?thesis by (simp add: double_val_def e971)
  next
    case False
    with fl have "fl + 1 \<le> 1023" by simp
    then have "(2::rat) powi (fl + 1) \<le> 2 powi 1023" by (simp only: powi2_le_iff)
    with flb(2) have x': "x < 2 ^ 1023" by simp
    from round_ratio_error [OF assms(1-3)]
    have "double_val (m, e) \<le> x + x / 2 ^ 53"
      unfolding rr x_def abs_diff_le_iff by blast
    with x' show ?thesis by simp
  qed
  show ?thesis
  proof
    assume "double_overflows (round_ratio n d)"
    then have "(2::rat) ^ 1024 \<le> double_val (m, e)"
      using double_overflows_ge [OF mpos] by (simp add: rr)
    with val show False by simp
  qed
qed

subsection \<open>The operations of the case rate\<close>

lemma int_truediv_pos:
  assumes "0 < a" and "0 < b" and "(2::rat) powi (- 1022) \<le> of_int a / of_int b"
    and "of_int a / of_int b < (2::rat) ^ 1024 - 2 ^ 970"
  obtains q where "int_truediv a b = Inr q" and "0 < fst q"
    and "of_int a / of_int b - (of_int a / of_int b) / 2 ^ 53 \<le> double_val q"
    and "double_val q \<le> of_int a / of_int b + (of_int a / of_int b) / 2 ^ 53"
proof -
  define q where "q = round_ratio a b"
  have no: "\<not> double_overflows q"
    unfolding q_def using assms by (rule round_ratio_in_range)
  obtain m e where me: "q = (m, e)" by (cases q)
  have "int_truediv a b = Inr q"
    using assms(1,2) no by (simp add: int_truediv_def q_def [symmetric] me)
  moreover have "0 < fst q"
    unfolding q_def using assms(1-3) by (rule round_ratio_positive)
  moreover have "of_int a / of_int b - (of_int a / of_int b) / 2 ^ 53 \<le> double_val q"
    "double_val q \<le> of_int a / of_int b + (of_int a / of_int b) / 2 ^ 53"
    using round_ratio_error [OF assms(1-3)] unfolding q_def abs_diff_le_iff by blast+
  ultimately show ?thesis by (rule that)
qed

lemma float_mul_pos:
  fixes p :: rat
  assumes "0 < m1" and "0 < m2" and "p = double_val (m1, e1) * double_val (m2, e2)"
    and "2 powi (- 1022) \<le> p"
  shows "(float_mul (m1, e1) (m2, e2) = PosInf \<and> 2 ^ 1024 \<le> p + p / 2 ^ 53)
     \<or> (\<exists>z. float_mul (m1, e1) (m2, e2) = Finite z
            \<and> p - p / 2 ^ 53 \<le> double_val z \<and> double_val z \<le> p + p / 2 ^ 53)"
proof -
  define m where "m = m1 * m2"
  define e where "e = e1 + e2"
  define n where "n = (if e \<ge> 0 then m * 2 ^ nat e else m)"
  define d :: int where "d = (if e \<ge> 0 then 1 else 2 ^ nat (- e))"
  have mpos: "0 < m" using assms(1,2) by (simp add: m_def)
  have npos: "0 < n" and dpos: "0 < d" using mpos by (simp_all add: n_def d_def)
  have "p = of_int m * 2 powi e"
    unfolding assms(3) double_val_def m_def e_def by (simp add: power_int_add)
  also have "\<dots> = of_int n / of_int d"
    by (cases "e \<ge> 0") (simp_all add: n_def d_def power_int_def field_simps)
  finally have p: "p = of_int n / of_int d" .
  have normal: "(2::rat) powi (- 1022) \<le> of_int n / of_int d"
    using assms(4) by (simp only: p)
  define r where "r = round_ratio n d"
  have rpos: "0 < fst r"
    unfolding r_def using npos dpos normal by (rule round_ratio_positive)
  have bounds: "p - p / 2 ^ 53 \<le> double_val r" "double_val r \<le> p + p / 2 ^ 53"
    using round_ratio_error [OF npos dpos normal] unfolding r_def p abs_diff_le_iff by blast+
  have fm: "float_mul (m1, e1) (m2, e2)
      = (if double_overflows r then PosInf else Finite r)"
    using mpos
    by (cases r)
      (auto simp add: float_mul.simps Let_def m_def [symmetric] e_def [symmetric] r_def n_def d_def)
  show ?thesis
  proof (cases "double_overflows r")
    case True
    then have "(2::rat) ^ 1024 \<le> double_val r"
      using double_overflows_ge [OF rpos, of "snd r"] by simp
    with bounds(2) True show ?thesis by (simp add: fm)
  next
    case False
    with bounds show ?thesis by (simp add: fm)
  qed
qed

lemma float_of_int_100000: "float_of_int 100000 = Inr (6871947673600000, - 36)"
  by (simp add: float_of_int_def round_ratio_def floor_log2_ratio_def round_half_even_div_def
      double_overflows_def bit_length.simps)

text \<open>The case rate of a positive count lies within two roundings of the count.\<close>

lemma case_rate_bounds:
  assumes "0 < c" and "c < (2 ^ 1024 - 2 ^ 970) * 100000"
  shows "(case_rate c = Inr PosInf \<and> (2::rat) ^ 1024 \<le> of_int c * ((1 + 1 / 2 ^ 53) * (1 + 1 / 2 ^ 53)))
     \<or> (\<exists>z. case_rate c = Inr (Finite z)
            \<and> of_int c * ((1 - 1 / 2 ^ 53) * (1 - 1 / 2 ^ 53)) \<le> double_val z
            \<and> double_val z \<le> of_int c * ((1 + 1 / 2 ^ 53) * (1 + 1 / 2 ^ 53)))"
proof -
  define x :: rat where "x = of_int c / of_int 100000"
  have c1: "(1::rat) \<le> of_int c" using assms(1) by simp
  have xlo: "(2::rat) powi (- 1022) \<le> x"
  proof -
    have "(2::rat) powi (- 1022) \<le> 1 / 100000" by simp
    also have "\<dots> \<le> x" using c1 by (simp add: x_def)
    finally show ?thesis .
  qed
  have "(of_int c :: rat) < of_int ((2 ^ 1024 - 2 ^ 970) * 100000)"
    using assms(2) by (simp only: of_int_less_iff)
  then have xhi: "x < 2 ^ 1024 - 2 ^ 970" by (simp add: x_def)
  from int_truediv_pos [of c 100000, folded x_def, OF assms(1) _ xlo xhi]
  obtain q where q: "int_truediv c 100000 = Inr q" "0 < fst q"
    "x - x / 2 ^ 53 \<le> double_val q" "double_val q \<le> x + x / 2 ^ 53"
    by auto
  define p where "p = double_val q * double_val (6871947673600000, - 36)"
  have p: "p = double_val q * 100000" by (simp add: p_def double_val_def)
  have xc: "x * 100000 = of_int c" by (simp add: x_def)
  have plo: "of_int c * (1 - 1 / 2 ^ 53) \<le> p" and phi: "p \<le> of_int c * (1 + 1 / 2 ^ 53)"
    using q(3,4) xc unfolding p by (simp_all add: algebra_simps)
  have pnormal: "2 powi (- 1022) \<le> p"
  proof -
    have "(2::rat) powi (- 1022) \<le> 1 * (1 - 1 / 2 ^ 53)" by simp
    also have "\<dots> \<le> of_int c * (1 - 1 / 2 ^ 53)" using c1 by (intro mult_right_mono) simp_all
    finally show ?thesis using plo by simp
  qed
  have cr: "case_rate c = Inr (float_mul q (6871947673600000, - 36))"
    using assms(1) by (simp add: case_rate_def q(1) float_mul_int_def float_of_int_100000)
  have lo2: "of_int c * ((1 - 1 / 2 ^ 53) * (1 - 1 / 2 ^ 53)) \<le> p - p / 2 ^ 53"
  proof -
    have "of_int c * (1 - 1 / 2 ^ 53) * (1 - 1 / 2 ^ 53) \<le> p * (1 - 1 / 2 ^ 53)"
      using plo by (intro mult_right_mono) simp_all
    then show ?thesis by (simp add: algebra_simps)
  qed
  have hi2: "p + p / 2 ^ 53 \<le> of_int c * ((1 + 1 / 2 ^ 53) * (1 + 1 / 2 ^ 53))"
  proof -
    have "p * (1 + 1 / 2 ^ 53) \<le> of_int c * (1 + 1 / 2 ^ 53) * (1 + 1 / 2 ^ 53)"
      using phi by (intro mult_right_mono) simp_all
    then show ?thesis by (simp add: algebra_simps)
  qed
  from float_mul_pos [of "fst q" 6871947673600000 p "snd q" "- 36", OF q(2) _ _ pnormal]
  have "(float_mul q (6871947673600000, - 36) = PosInf \<and> 2 ^ 1024 \<le> p + p / 2 ^ 53)
     \<or> (\<exists>z. float_mul q (6871947673600000, - 36) = Finite z
            \<and> p - p / 2 ^ 53 \<le> double_val z \<and> double_val z \<le> p + p / 2 ^ 53)"
    by (simp add: p_def)
  then show ?thesis
  proof
    assume "float_mul q (6871947673600000, - 36) = PosInf \<and> 2 ^ 1024 \<le> p + p / 2 ^ 53"
    with hi2 cr show ?thesis by (intro disjI1) (auto intro: order_trans)
  next
    assume "\<exists>z. float_mul q (6871947673600000, - 36) = Finite z
            \<and> p - p / 2 ^ 53 \<le> double_val z \<and> double_val z \<le> p + p / 2 ^ 53"
    then obtain z where z: "float_mul q (6871947673600000, - 36) = Finite z"
      "p - p / 2 ^ 53 \<le> double_val z" "double_val z \<le> p + p / 2 ^ 53" by blast
    have "of_int c * ((1 - 1 / 2 ^ 53) * (1 - 1 / 2 ^ 53)) \<le> double_val z"
      using lo2 z(2) by (rule order_trans)
    moreover have "double_val z \<le> of_int c * ((1 + 1 / 2 ^ 53) * (1 + 1 / 2 ^ 53))"
      using z(3) hi2 by (rule order_trans)
    ultimately show ?thesis using cr z(1) by (intro disjI2 exI [of _ z]) simp
  qed
qed

section \<open>The outbreak risk level\<close>

lemma case_rate_nonpositive: "c \<le> 0 \<Longrightarrow> case_rate c = Inr (Finite (0, 0))"
  by (simp add: case_rate_def)

lemma case_rate_ge_iff:
  assumes "0 < c" and "c < (2 ^ 1024 - 2 ^ 970) * 100000"
    and "1 \<le> t" and "t \<le> 2 ^ 50" and "c \<noteq> t"
  shows "\<exists>r. case_rate c = Inr r \<and> (float_ge_int r t \<longleftrightarrow> t \<le> c)"
proof -
  have t: "(1::rat) \<le> of_int t" "(of_int t :: rat) \<le> 2 ^ 50"
  proof -
    show "(1::rat) \<le> of_int t" using assms(3) by simp
    have "(of_int t :: rat) \<le> of_int (2 ^ 50)" using assms(4) by (simp only: of_int_le_iff)
    then show "(of_int t :: rat) \<le> 2 ^ 50" by simp
  qed
  from case_rate_bounds [OF assms(1,2)] show ?thesis
  proof
    assume inf: "case_rate c = Inr PosInf
      \<and> (2::rat) ^ 1024 \<le> of_int c * ((1 + 1 / 2 ^ 53) * (1 + 1 / 2 ^ 53))"
    have "(of_int t :: rat) \<le> of_int c"
    proof (rule ccontr)
      assume "\<not> (of_int t :: rat) \<le> of_int c"
      then have "(of_int c :: rat) < 2 ^ 50" using t(2) by simp
      with inf show False by simp
    qed
    then have "t \<le> c" by (simp only: of_int_le_iff)
    with inf show ?thesis by simp
  next
    assume "\<exists>z. case_rate c = Inr (Finite z)
            \<and> of_int c * ((1 - 1 / 2 ^ 53) * (1 - 1 / 2 ^ 53)) \<le> double_val z
            \<and> double_val z \<le> of_int c * ((1 + 1 / 2 ^ 53) * (1 + 1 / 2 ^ 53))"
    then obtain z where z: "case_rate c = Inr (Finite z)"
      "of_int c * ((1 - 1 / 2 ^ 53) * (1 - 1 / 2 ^ 53)) \<le> double_val z"
      "double_val z \<le> of_int c * ((1 + 1 / 2 ^ 53) * (1 + 1 / 2 ^ 53))" by blast
    have "of_int t \<le> double_val z \<longleftrightarrow> t \<le> c"
    proof (cases "t < c")
      case True
      then have "t + 1 \<le> c" by simp
      then have "(of_int (t + 1) :: rat) \<le> of_int c" by (simp only: of_int_le_iff)
      then have "(of_int t :: rat) + 1 \<le> of_int c" by simp
      with z(2) t have "of_int t \<le> double_val z" by simp
      with True show ?thesis by simp
    next
      case False
      with assms(5) have "c + 1 \<le> t" by simp
      then have "(of_int (c + 1) :: rat) \<le> of_int t" by (simp only: of_int_le_iff)
      then have "(of_int c :: rat) + 1 \<le> of_int t" by simp
      with z(3) t have "double_val z < of_int t" by simp
      with False assms(5) show ?thesis by auto
    qed
    with z(1) show ?thesis by simp
  qed
qed

lemmas float_eval = int_truediv_def double_overflows_def round_ratio_def floor_log2_ratio_def
  round_half_even_div_def bit_length.simps float_of_int_def float_mul.simps
  float_mul_int_def case_rate_def double_val_def

lemma case_rate_exact:
  "case_rate 5 = Inr (Finite (5 * 2 ^ 50, - 50))"
  "case_rate 10 = Inr (Finite (10 * 2 ^ 49, - 49))"
  "case_rate 20 = Inr (Finite (20 * 2 ^ 48, - 48))"
  "case_rate 50 = Inr (Finite (50 * 2 ^ 47, - 47))"
  by (simp_all add: float_eval)

text \<open>
  The case rate is not the count in general: 7 cases give \<open>7 - 2 ^ - 50\<close>, just below 7.
  The four case thresholds that the table of the constructor compares with are reproduced
  exactly, as \<open>case_rate_exact\<close> shows.
\<close>

lemma case_rate_at_7:
  "case_rate 7 = Inr (Finite (7881299347898367, - 50))"
  "double_val (7881299347898367, - 50) = 7 - 1 / 2 ^ 50"
  "\<not> float_ge_int (Finite (7881299347898367, - 50)) 7"
  by (simp_all add: float_eval)

lemma case_rate_table_thresholds:
  assumes "c < (2 ^ 1024 - 2 ^ 970) * 100000"
  shows "\<exists>r. case_rate c = Inr r
    \<and> (float_ge_int r 5 \<longleftrightarrow> 5 \<le> c) \<and> (float_ge_int r 10 \<longleftrightarrow> 10 \<le> c)
    \<and> (float_ge_int r 20 \<longleftrightarrow> 20 \<le> c) \<and> (float_ge_int r 50 \<longleftrightarrow> 50 \<le> c)"
proof (cases "c \<le> 0")
  case True
  then show ?thesis by (simp add: case_rate_nonpositive double_val_def)
next
  case False
  then have pos: "0 < c" by simp
  have one: "\<exists>r. case_rate c = Inr r \<and> (float_ge_int r t \<longleftrightarrow> t \<le> c)"
    if "t = 5 \<or> t = 10 \<or> t = 20 \<or> t = 50" for t
  proof (cases "c = t")
    case True
    with that show ?thesis by (auto simp add: case_rate_exact double_val_def)
  next
    case False
    from that have "1 \<le> t" "t \<le> 2 ^ 50" by auto
    with pos assms False show ?thesis by (intro case_rate_ge_iff)
  qed
  from one [of 5] obtain r where r: "case_rate c = Inr r" by auto
  from one [of 5] one [of 10] one [of 20] one [of 50] r show ?thesis by auto
qed


lemma case_rate_huge: "case_rate (2 ^ 1024 * 100000) = Inl OverflowError"
  by (simp add: float_eval)

text \<open>
  The bound is sharp: at \<open>(2 ^ 1024 - 2 ^ 970) * 100000\<close> cases the quotient rounds to
  \<open>2 ^ 1024\<close>, out of the range of a float.
\<close>

lemma case_rate_at_bound: "case_rate ((2 ^ 1024 - 2 ^ 970) * 100000) = Inl OverflowError"
  by (simp add: float_eval)

lemma init_table:
  "risk_thresholds EnhancedMOHScraper_init ''meningitis'' =
     Some \<lparr> high = \<lparr>cases_per_100k = 10, deaths = 2\<rparr>,
            medium = \<lparr>cases_per_100k = 5, deaths = 1\<rparr>,
            low = \<lparr>cases_per_100k = 1, deaths = 0\<rparr> \<rparr>"
  "risk_thresholds EnhancedMOHScraper_init ''diarrhoea'' =
     Some \<lparr> high = \<lparr>cases_per_100k = 50, deaths = 5\<rparr>,
            medium = \<lparr>cases_per_100k = 20, deaths = 2\<rparr>,
            low = \<lparr>cases_per_100k = 5, deaths = 0\<rparr> \<rparr>"
  "dom (risk_thresholds EnhancedMOHScraper_init) = {''meningitis'', ''diarrhoea''}"
  by (auto simp add: EnhancedMOHScraper_init_def)


text \<open>
  Claim C1.  The claim asks for a lookup that ignores letter case.  The code looks the
  disease up as it is given: \<open>Meningitis\<close> is no key of the table and gets the default
  Medium, where its lower-case form gets High for the same counts.
\<close>

theorem risk_lookup_is_case_sensitive:
  "calculate_risk_level EnhancedMOHScraper_init ''Meningitis'' 25 3 = Inr ''Medium''
   \<and> calculate_risk_level EnhancedMOHScraper_init (lower ''Meningitis'') 25 3 = Inr ''High''"
  by (simp add: calculate_risk_level_def EnhancedMOHScraper_init_def lower_def lower_char_def
      float_eval)




text \<open>
  Claim C6, amended.  For a disease of the threshold table, every case count below
  \<open>(2 ^ 1024 - 2 ^ 970) * 100000\<close> (zero and the negative ones included) and every death
  count, the risk level computed through the case rate \<open>(cases / 100000) * 100000\<close> is the
  one that the comparison of the raw case count with the thresholds gives.  The table is the
  one of the constructor, with the case thresholds 10 and 5, 50 and 20.
\<close>

theorem case_rate_normalization_is_noop:
  "disease \<in> dom (risk_thresholds EnhancedMOHScraper_init) \<Longrightarrow>
   cases < (2 ^ 1024 - 2 ^ 970) * 100000 \<Longrightarrow>
   calculate_risk_level EnhancedMOHScraper_init disease cases dc
     = Inr (calculate_risk_level_raw EnhancedMOHScraper_init disease cases dc)"
proof -
  assume d: "disease \<in> dom (risk_thresholds EnhancedMOHScraper_init)"
    and c: "cases < (2 ^ 1024 - 2 ^ 970) * 100000"
  from case_rate_table_thresholds [OF c] obtain r where r: "case_rate cases = Inr r"
    "float_ge_int r 5 \<longleftrightarrow> 5 \<le> cases" "float_ge_int r 10 \<longleftrightarrow> 10 \<le> cases"
    "float_ge_int r 20 \<longleftrightarrow> 20 \<le> cases" "float_ge_int r 50 \<longleftrightarrow> 50 \<le> cases"
    by blast
  from d have "disease = ''meningitis'' \<or> disease = ''diarrhoea''"
    by (simp only: init_table) blast
  then show ?thesis
  proof
    assume "disease = ''meningitis''"
    then show ?thesis
      by (simp add: calculate_risk_level_def calculate_risk_level_raw_def init_table r)
  next
    assume "disease = ''diarrhoea''"
    then show ?thesis
      by (simp add: calculate_risk_level_def calculate_risk_level_raw_def init_table r)
  qed
qed

theorem case_rate_normalization_is_noop_witness:
  "''diarrhoea'' \<in> dom (risk_thresholds EnhancedMOHScraper_init)
   \<and> (7::int) < (2 ^ 1024 - 2 ^ 970) * 100000
   \<and> calculate_risk_level EnhancedMOHScraper_init ''diarrhoea'' 7 0
     = Inr (calculate_risk_level_raw EnhancedMOHScraper_init ''diarrhoea'' 7 0)"
proof -
  have h1: "''diarrhoea'' \<in> dom (risk_thresholds EnhancedMOHScraper_init)"
    by (simp add: init_table)
  have h2: "(7::int) < (2 ^ 1024 - 2 ^ 970) * 100000" by simp
  from case_rate_normalization_is_noop [OF h1 h2] h1 h2 show ?thesis by simp
qed

text \<open>
  Claim C6 as stated fails: with \<open>2 ^ 1024 * 100000\<close> cases the code raises
  \<open>OverflowError\<close>, where the variant on the raw count returns a tier.
\<close>

theorem case_rate_normalization_counterexample:
  "calculate_risk_level EnhancedMOHScraper_init ''diarrhoea'' (2 ^ 1024 * 100000) 0
     \<noteq> Inr (calculate_risk_level_raw EnhancedMOHScraper_init ''diarrhoea''
             (2 ^ 1024 * 100000) 0)"
  unfolding calculate_risk_level_def init_table case_rate_huge by simp

end
